theory Spec2Isabelle
  imports Main "HOL-Library.Monad_Syntax"
begin

section \<open>Focusable nodes and the document model\<close>

text \<open>
  Objects are compared by identity in the source (\<^verbatim>\<open>===\<close>); here every object is named
  by an identifier and identity is equality of identifiers.  The classes tested with
  \<^verbatim>\<open>instanceof\<close> are the constructors of \<open>node\<close>; \<open>null\<close> is \<open>None\<close>.
\<close>

type_synonym block_id = nat
type_synonym connection_id = nat
type_synonym input_id = nat
type_synonym field_id = nat
type_synonym comment_id = nat

datatype NavigationDirection = NEXT | PREVIOUS | IN | OUT

datatype ConnectionType = INPUT_VALUE | OUTPUT_VALUE | NEXT_STATEMENT | PREVIOUS_STATEMENT

datatype node =
    BlockSvg block_id
  | RenderedConnection connection_id
  | RenderedWorkspaceComment comment_id
  | Field_node field_id
  | WorkspaceSvg
  | OtherFocusable nat

text \<open>
  The navigator (\<^verbatim>\<open>workspace.getNavigator()\<close>) is a collaborator whose code is not part of
  the sources, so its four queries are parameters.  \<^verbatim>\<open>getNextNode\<close> and
  \<^verbatim>\<open>getPreviousNode\<close> set the cursor's \<^verbatim>\<open>navigationLoops\<close> flag for the duration of a
  call; the only reader of that flag outside the cursor is the navigator, so each query
  takes the flag's value at the time of the call as its first argument.
\<close>

record navigator =
  getFirstChild :: "bool \<Rightarrow> node \<Rightarrow> node option"
  getNextSibling :: "bool \<Rightarrow> node \<Rightarrow> node option"
  getPreviousSibling :: "bool \<Rightarrow> node \<Rightarrow> node option"
  getParent :: "bool \<Rightarrow> node \<Rightarrow> node option"

text \<open>
  What the cursor reads of blocks, connections, inputs and fields (classes \<^verbatim>\<open>BlockSvg\<close>,
  \<^verbatim>\<open>RenderedConnection\<close>, \<^verbatim>\<open>Input\<close>, \<^verbatim>\<open>Field\<close>, none of them part of the
  sources): one accessor per property or method the cursor uses, each a parameter.
\<close>

record workspace =
  getNavigator :: navigator
  outputConnection :: "block_id \<Rightarrow> connection_id option"
  previousConnection :: "block_id \<Rightarrow> connection_id option"
  getNextBlock :: "block_id \<Rightarrow> block_id option"
  block_getParent :: "block_id \<Rightarrow> block_id option"
  getInputsInline :: "block_id \<Rightarrow> bool"
  statementInputCount :: "block_id \<Rightarrow> nat"
  inputList :: "block_id \<Rightarrow> input_id list"
  disposed :: "block_id \<Rightarrow> bool"
  getNestingLevel :: "block_id \<Rightarrow> nat"
  connection_type :: "connection_id \<Rightarrow> ConnectionType"
  getSourceBlock :: "connection_id \<Rightarrow> block_id"
  getParentInput :: "connection_id \<Rightarrow> input_id option"
  targetConnection :: "connection_id \<Rightarrow> connection_id option"
  targetBlock :: "connection_id \<Rightarrow> block_id option"
  input_getSourceBlock :: "input_id \<Rightarrow> block_id"
  field_getSourceBlock :: "field_id \<Rightarrow> block_id option"

text \<open>
  The cursor's own fields (\<^verbatim>\<open>potentialNodes\<close>, \<^verbatim>\<open>navigationLoops\<close>), the focus
  manager's focused node, which is the cursor's current position
  (\<^verbatim>\<open>getCurNode() = getFocusManager().getFocusedNode()\<close>), and the tones requested from the
  audio manager by \<^verbatim>\<open>setCurNode\<close>, oldest first.
\<close>

record cursor_state =
  potentialNodes :: "node list option"
  navigationLoops :: bool
  focusedNode :: "node option"
  beeps :: "nat list"

text \<open>
  Modelled from the spec: \<^verbatim>\<open>Marker.getSourceBlockFromNode\<close> is inherited from a class that
  is not part of the sources.  It gives the owning block of a node, if it has one: a block
  owns itself, a connection and a field belong to their source block, and the workspace,
  a comment or no node have none.
\<close>

definition getSourceBlockFromNode :: "workspace \<Rightarrow> node option \<Rightarrow> block_id option" where
  "getSourceBlockFromNode w n =
     (case n of
        Some (BlockSvg b) \<Rightarrow> Some b
      | Some (RenderedConnection c) \<Rightarrow> Some (getSourceBlock w c)
      | Some (Field_node f) \<Rightarrow> field_getSourceBlock w f
      | _ \<Rightarrow> None)"

section \<open>Loops that need not return\<close>

text \<open>
  Every loop and recursion of the cursor follows links of the object graph, and nothing in
  the code bounds them on a graph with a cycle.  Each is therefore a function into
  \<open>option\<close>: \<open>None\<close> is a loop that never returns, \<open>Some r\<close> is the value \<open>r\<close> returned.
  For a node result \<open>Some None\<close> is the JavaScript \<open>null\<close>.
\<close>

text \<open>\<^verbatim>\<open>getParents\<close>: the \<^verbatim>\<open>while (parent)\<close> loop, then the function.\<close>

partial_function (option) getParents_loop ::
  "workspace \<Rightarrow> block_id option \<Rightarrow> block_id set \<Rightarrow> block_id set option" where
  "getParents_loop w parent parents =
     (case parent of
        None \<Rightarrow> Some parents
      | Some p \<Rightarrow> getParents_loop w (block_getParent w p) (insert p parents))"

declare getParents_loop.simps [code]

definition getParents :: "workspace \<Rightarrow> block_id \<Rightarrow> block_id set option" where
  "getParents w block = getParents_loop w (block_getParent w block) {}"

section \<open>Admissibility: getValidationFunction\<close>

text \<open>\<^verbatim>\<open>block.inputList[0] === x\<close>, where \<open>x\<close> is an input or \<open>null\<close>; the first element of
  an empty list is \<^verbatim>\<open>undefined\<close>, which is identical to neither.\<close>

definition inputList0_is :: "workspace \<Rightarrow> block_id \<Rightarrow> input_id option \<Rightarrow> bool" where
  "inputList0_is w b x = (case inputList w b of [] \<Rightarrow> False | i # _ \<Rightarrow> x = Some i)"

text \<open>
  The function returned by \<^verbatim>\<open>getValidationFunction(direction)\<close>, applied to a candidate.
  The closure reads \<^verbatim>\<open>this.getCurNode()\<close> when it is called; that node is the argument
  \<open>curNode\<close>.
\<close>

definition getValidationFunction ::
  "workspace \<Rightarrow> node option \<Rightarrow> NavigationDirection \<Rightarrow> node option \<Rightarrow> bool option" where
  "getValidationFunction w curNode direction candidate =
     (if direction = IN \<or> direction = OUT then Some True
      else if
        (case candidate of
           Some (BlockSvg b) \<Rightarrow>
             (case outputConnection w b of
                None \<Rightarrow> True
              | Some oc \<Rightarrow> targetBlock w oc = None)
         | Some (RenderedWorkspaceComment c) \<Rightarrow> True
         | Some (RenderedConnection c) \<Rightarrow>
             connection_type w c = NEXT_STATEMENT \<or>
             (connection_type w c = INPUT_VALUE \<and>
              statementInputCount w (getSourceBlock w c) \<noteq> 0 \<and>
              \<not> inputList0_is w (getSourceBlock w c) (getParentInput w c))
         | _ \<Rightarrow> False)
      then Some True
      else if direction = PREVIOUS \<and>
        (case curNode of
           Some (RenderedConnection cc) \<Rightarrow>
             connection_type w cc = NEXT_STATEMENT \<and>
             getParentInput w cc = None \<and>
             candidate \<noteq> Some (BlockSvg (getSourceBlock w cc))
         | _ \<Rightarrow> False)
      then Some False
      else if direction = PREVIOUS \<and>
        (case candidate of
           Some (BlockSvg b) \<Rightarrow>
             (case outputConnection w b of
                None \<Rightarrow> False
              | Some oc \<Rightarrow>
                  (case targetConnection w oc of
                     None \<Rightarrow> False
                   | Some tc \<Rightarrow>
                       (case getParentInput w tc of
                          None \<Rightarrow> True
                        | Some parentInput \<Rightarrow>
                            statementInputCount w (input_getSourceBlock w parentInput) = 0 \<or>
                            inputList0_is w (input_getSourceBlock w parentInput)
                              (Some parentInput))))
         | _ \<Rightarrow> False)
      then Some False
      else
        (case (candidate, getSourceBlockFromNode w curNode) of
           (Some (BlockSvg cand), Some currentBlock) \<Rightarrow>
             if (case outputConnection w cand of
                   None \<Rightarrow> False
                 | Some oc \<Rightarrow>
                     (case targetBlock w oc of
                        None \<Rightarrow> False
                      | Some p \<Rightarrow> getInputsInline w p))
             then Some False
             else do {
               candidateParents \<leftarrow> getParents w cand;
               if curNode = Some (BlockSvg currentBlock) \<and> currentBlock \<in> candidateParents
               then Some False
               else do {
                 currentParents \<leftarrow> getParents w currentBlock;
                 let sharedParents = currentParents \<inter> candidateParents;
                 Some (sharedParents = {} \<or> (\<exists>block \<in> sharedParents. \<not> getInputsInline w block))
               }
             }
         | _ \<Rightarrow> Some False))"

section \<open>The traversal engine\<close>

text \<open>
  The \<^verbatim>\<open>while (target && !newNode)\<close> loop of \<^verbatim>\<open>getNextNodeImpl\<close>, entered when the node
  has neither a first child nor a next sibling: climb through the parents until one of
  them has a next sibling or there is no parent.  \<open>l\<close> is the value of
  \<^verbatim>\<open>navigationLoops\<close> during the call.
\<close>

partial_function (option) nextOfAncestor ::
  "navigator \<Rightarrow> bool \<Rightarrow> node \<Rightarrow> node option option" where
  "nextOfAncestor nav l target =
     (case getParent nav l target of
        None \<Rightarrow> Some None
      | Some parent \<Rightarrow>
          (case getNextSibling nav l parent of
             Some newNode \<Rightarrow> Some (Some newNode)
           | None \<Rightarrow> nextOfAncestor nav l parent))"

declare nextOfAncestor.simps [code]

definition nextCandidate :: "navigator \<Rightarrow> bool \<Rightarrow> node \<Rightarrow> node option option" where
  "nextCandidate nav l node =
     (case getFirstChild nav l node of
        Some c \<Rightarrow> Some (Some c)
      | None \<Rightarrow>
          (case getNextSibling nav l node of
             Some s \<Rightarrow> Some (Some s)
           | None \<Rightarrow> nextOfAncestor nav l node))"

partial_function (option) getNextNodeImpl ::
  "navigator \<Rightarrow> bool \<Rightarrow> (node option \<Rightarrow> bool option) \<Rightarrow> node option \<Rightarrow> node set \<Rightarrow>
   node option option" where
  "getNextNodeImpl nav l isValid node visitedNodes =
     (case node of
        None \<Rightarrow> Some None
      | Some n \<Rightarrow>
          if n \<in> visitedNodes then Some None
          else do {
            newNode \<leftarrow> nextCandidate nav l n;
            valid \<leftarrow> isValid newNode;
            if valid then Some newNode
            else (case newNode of
                    Some m \<Rightarrow> getNextNodeImpl nav l isValid (Some m) (insert n visitedNodes)
                  | None \<Rightarrow> Some None)
          })"

declare getNextNodeImpl.simps [code]

text \<open>The \<^verbatim>\<open>for\<close> loop of \<^verbatim>\<open>getRightMostChild\<close>: from a first child, the last sibling
  before the end of the sibling chain or before \<^verbatim>\<open>stopIfFound\<close>.\<close>

partial_function (option) lastSiblingBefore ::
  "navigator \<Rightarrow> bool \<Rightarrow> node \<Rightarrow> node \<Rightarrow> node option" where
  "lastSiblingBefore nav l stopIfFound newNode =
     (case getNextSibling nav l newNode of
        None \<Rightarrow> Some newNode
      | Some nextNode \<Rightarrow>
          if nextNode = stopIfFound then Some newNode
          else lastSiblingBefore nav l stopIfFound nextNode)"

declare lastSiblingBefore.simps [code]

partial_function (option) getRightMostChild ::
  "navigator \<Rightarrow> bool \<Rightarrow> node option \<Rightarrow> node \<Rightarrow> node option option" where
  "getRightMostChild nav l node stopIfFound =
     (case node of
        None \<Rightarrow> Some None
      | Some n \<Rightarrow>
          (case getFirstChild nav l n of
             None \<Rightarrow> Some (Some n)
           | Some newNode \<Rightarrow>
               if newNode = stopIfFound then Some (Some n)
               else do {
                 lastNode \<leftarrow> lastSiblingBefore nav l stopIfFound newNode;
                 getRightMostChild nav l (Some lastNode) stopIfFound
               }))"

declare getRightMostChild.simps [code]

definition previousCandidate :: "navigator \<Rightarrow> bool \<Rightarrow> node \<Rightarrow> node option option" where
  "previousCandidate nav l node =
     do {
       rightMost \<leftarrow> getRightMostChild nav l (getPreviousSibling nav l node) node;
       Some (case rightMost of Some r \<Rightarrow> Some r | None \<Rightarrow> getParent nav l node)
     }"

partial_function (option) getPreviousNodeImpl ::
  "navigator \<Rightarrow> bool \<Rightarrow> (node option \<Rightarrow> bool option) \<Rightarrow> node option \<Rightarrow> node set \<Rightarrow>
   node option option" where
  "getPreviousNodeImpl nav l isValid node visitedNodes =
     (case node of
        None \<Rightarrow> Some None
      | Some n \<Rightarrow>
          if n \<in> visitedNodes then Some None
          else do {
            newNode \<leftarrow> previousCandidate nav l n;
            valid \<leftarrow> isValid newNode;
            if valid then Some newNode
            else (case newNode of
                    Some m \<Rightarrow> getPreviousNodeImpl nav l isValid (Some m) (insert n visitedNodes)
                  | None \<Rightarrow> Some None)
          })"

declare getPreviousNodeImpl.simps [code]

section \<open>The cursor\<close>

definition setNavigationLoops :: "bool \<Rightarrow> cursor_state \<Rightarrow> cursor_state" where
  "setNavigationLoops loops s = s\<lparr>navigationLoops := loops\<rparr>"

definition getNavigationLoops :: "cursor_state \<Rightarrow> bool" where
  "getNavigationLoops s = navigationLoops s"

definition getCurNode :: "cursor_state \<Rightarrow> node option" where
  "getCurNode s = focusedNode s"

definition getFirstNode :: "workspace \<Rightarrow> cursor_state \<Rightarrow> node option" where
  "getFirstNode w s = getFirstChild (getNavigator w) (navigationLoops s) WorkspaceSvg"

text \<open>
  The operations below return the result together with the state they leave, inside
  \<open>option\<close>: \<open>None\<close> when the traversal never returns.
\<close>

definition getPreviousNode ::
  "workspace \<Rightarrow> cursor_state \<Rightarrow> node option \<Rightarrow> (node option \<Rightarrow> bool option) \<Rightarrow> bool \<Rightarrow>
   (node option \<times> cursor_state) option" where
  "getPreviousNode w s node isValid loop =
     (let originalLoop = getNavigationLoops s;
          s1 = setNavigationLoops loop s
      in do {
        result \<leftarrow>
          (if node = None \<or> (\<not> loop \<and> getFirstNode w s1 = node) then Some None
           else getPreviousNodeImpl (getNavigator w) (navigationLoops s1) isValid node {});
        Some (result, setNavigationLoops originalLoop s1)
      })"

definition getLastNode :: "workspace \<Rightarrow> cursor_state \<Rightarrow> (node option \<times> cursor_state) option" where
  "getLastNode w s =
     (let first = getFirstNode w s
      in getPreviousNode w s first (\<lambda>_. Some True) True)"

definition getNextNode ::
  "workspace \<Rightarrow> cursor_state \<Rightarrow> node option \<Rightarrow> (node option \<Rightarrow> bool option) \<Rightarrow> bool \<Rightarrow>
   (node option \<times> cursor_state) option" where
  "getNextNode w s node isValid loop =
     (let originalLoop = getNavigationLoops s;
          s1 = setNavigationLoops loop s
      in do {
        (result, s2) \<leftarrow>
          (if node = None then Some (None, s1)
           else if loop then
             do { r \<leftarrow> getNextNodeImpl (getNavigator w) (navigationLoops s1) isValid node {};
                  Some (r, s1) }
           else
             do { (lastNode, s') \<leftarrow> getLastNode w s1;
                  if lastNode = node then Some (None, s')
                  else do {
                    r \<leftarrow> getNextNodeImpl (getNavigator w) (navigationLoops s') isValid node {};
                    Some (r, s') } });
        Some (result, setNavigationLoops originalLoop s2)
      })"

text \<open>
  \<^verbatim>\<open>setCurNode\<close>: a tone is requested when the nesting level of the owning block changes,
  then the focus manager is asked to focus the node.  Modelled from the spec:
  \<^verbatim>\<open>focusNode\<close> synchronously updates what \<^verbatim>\<open>getFocusedNode\<close> returns;
  \<^verbatim>\<open>Marker.getSourceBlock()\<close> is the owning block of the current node.
\<close>

definition setCurNode :: "workspace \<Rightarrow> node \<Rightarrow> cursor_state \<Rightarrow> cursor_state" where
  "setCurNode w newNode s =
     (let oldBlock = getSourceBlockFromNode w (getCurNode s);
          newBlock = getSourceBlockFromNode w (Some newNode);
          s1 = (case (oldBlock, newBlock) of
                  (Some ob, Some nb) \<Rightarrow>
                    if getNestingLevel w ob \<noteq> getNestingLevel w nb
                    then s\<lparr>beeps := beeps s @ [400 + getNestingLevel w nb * 40]\<rparr>
                    else s
                | _ \<Rightarrow> s)
      in s1\<lparr>focusedNode := Some newNode\<rparr>)"

text \<open>\<^verbatim>\<open>next\<close>, \<^verbatim>\<open>in\<close>, \<^verbatim>\<open>prev\<close> and \<^verbatim>\<open>out\<close> (\<open>next\<close> and \<open>in\<close> are keywords
  of the proof language, hence the prefix).\<close>

definition cursor_next :: "workspace \<Rightarrow> cursor_state \<Rightarrow> (node option \<times> cursor_state) option" where
  "cursor_next w s =
     (case getCurNode s of
        None \<Rightarrow> Some (None, s)
      | Some curNode \<Rightarrow>
          do {
            (newNode, s1) \<leftarrow>
              getNextNode w s (Some curNode)
                (getValidationFunction w (getCurNode s) NEXT) (getNavigationLoops s);
            Some (newNode, case newNode of Some n \<Rightarrow> setCurNode w n s1 | None \<Rightarrow> s1)
          })"

definition cursor_in :: "workspace \<Rightarrow> cursor_state \<Rightarrow> (node option \<times> cursor_state) option" where
  "cursor_in w s =
     (case getCurNode s of
        None \<Rightarrow> Some (None, s)
      | Some curNode \<Rightarrow>
          do {
            (newNode, s1) \<leftarrow>
              getNextNode w s (Some curNode)
                (getValidationFunction w (getCurNode s) IN) (getNavigationLoops s);
            Some (newNode, case newNode of Some n \<Rightarrow> setCurNode w n s1 | None \<Rightarrow> s1)
          })"

definition cursor_prev :: "workspace \<Rightarrow> cursor_state \<Rightarrow> (node option \<times> cursor_state) option" where
  "cursor_prev w s =
     (case getCurNode s of
        None \<Rightarrow> Some (None, s)
      | Some curNode \<Rightarrow>
          do {
            (newNode, s1) \<leftarrow>
              getPreviousNode w s (Some curNode)
                (getValidationFunction w (getCurNode s) PREVIOUS) (getNavigationLoops s);
            Some (newNode, case newNode of Some n \<Rightarrow> setCurNode w n s1 | None \<Rightarrow> s1)
          })"

definition cursor_out :: "workspace \<Rightarrow> cursor_state \<Rightarrow> (node option \<times> cursor_state) option" where
  "cursor_out w s =
     (case getCurNode s of
        None \<Rightarrow> Some (None, s)
      | Some curNode \<Rightarrow>
          do {
            (newNode, s1) \<leftarrow>
              getPreviousNode w s (Some curNode)
                (getValidationFunction w (getCurNode s) OUT) (getNavigationLoops s);
            Some (newNode, case newNode of Some n \<Rightarrow> setCurNode w n s1 | None \<Rightarrow> s1)
          })"

definition atEndOfLine :: "workspace \<Rightarrow> cursor_state \<Rightarrow> (bool \<times> cursor_state) option" where
  "atEndOfLine w s =
     (case getCurNode s of
        None \<Rightarrow> Some (False, s)
      | Some curNode \<Rightarrow>
          do {
            (inNode, s1) \<leftarrow>
              getNextNode w s (Some curNode)
                (getValidationFunction w (getCurNode s) IN) (getNavigationLoops s);
            (nextNode, s2) \<leftarrow>
              getNextNode w s1 (Some curNode)
                (getValidationFunction w (getCurNode s1) NEXT) (getNavigationLoops s1);
            Some (inNode = nextNode, s2)
          })"

subsection \<open>Deletion recovery\<close>

definition preDelete :: "workspace \<Rightarrow> block_id \<Rightarrow> cursor_state \<Rightarrow> cursor_state" where
  "preDelete w deletedBlock s =
     (let curNode = getCurNode s;
          nodes0 = (case curNode of Some n \<Rightarrow> [n] | None \<Rightarrow> []);
          parentConnection =
            (case (case previousConnection w deletedBlock of
                     None \<Rightarrow> None
                   | Some pc \<Rightarrow> targetConnection w pc) of
               Some c \<Rightarrow> Some c
             | None \<Rightarrow>
                 (case outputConnection w deletedBlock of
                    None \<Rightarrow> None
                  | Some oc \<Rightarrow> targetConnection w oc));
          nodes1 = (case parentConnection of
                      Some c \<Rightarrow> nodes0 @ [RenderedConnection c]
                    | None \<Rightarrow> nodes0);
          nextBlock = getNextBlock w deletedBlock;
          nodes2 = (case nextBlock of Some nb \<Rightarrow> nodes1 @ [BlockSvg nb] | None \<Rightarrow> nodes1);
          parentBlock = block_getParent w deletedBlock;
          nodes3 = (case parentBlock of Some pb \<Rightarrow> nodes2 @ [BlockSvg pb] | None \<Rightarrow> nodes2);
          nodes4 = nodes3 @ [WorkspaceSvg]
      in s\<lparr>potentialNodes := Some nodes4\<rparr>)"

datatype error = Error string

text \<open>\<^verbatim>\<open>!this.getSourceBlockFromNode(node)?.disposed\<close>: a node without an owning block
  passes.\<close>

definition sourceBlockNotDisposed :: "workspace \<Rightarrow> node \<Rightarrow> bool" where
  "sourceBlockNotDisposed w node =
     (case getSourceBlockFromNode w (Some node) of
        None \<Rightarrow> True
      | Some b \<Rightarrow> \<not> disposed w b)"

text \<open>The \<^verbatim>\<open>for\<close> loop of \<^verbatim>\<open>postDelete\<close> with the \<^verbatim>\<open>throw\<close> that follows it.  A
  \<^verbatim>\<open>throw\<close> is the result \<open>Inl\<close>; the state is returned in either case, since the
  assignments made before a \<^verbatim>\<open>throw\<close> stay.\<close>

fun postDelete_loop ::
  "workspace \<Rightarrow> node list \<Rightarrow> cursor_state \<Rightarrow> (error + unit) \<times> cursor_state" where
  "postDelete_loop w [] s = (Inl (Error ''no valid nodes in this.potentialNodes''), s)"
| "postDelete_loop w (node # nodes) s =
     (if sourceBlockNotDisposed w node then (Inr (), setCurNode w node s)
      else postDelete_loop w nodes s)"

definition postDelete :: "workspace \<Rightarrow> cursor_state \<Rightarrow> (error + unit) \<times> cursor_state" where
  "postDelete w s =
     (let nodes = potentialNodes s;
          s1 = s\<lparr>potentialNodes := None\<rparr>
      in case nodes of
           None \<Rightarrow> (Inl (Error ''must call preDelete first''), s1)
         | Some ns \<Rightarrow> postDelete_loop w ns s1)"

section \<open>Shortcut preconditions: copy and cut\<close>

text \<open>
  What the shortcuts read of the focused node.  The interface guards \<^verbatim>\<open>isICopyable\<close>,
  \<^verbatim>\<open>isIDeletable\<close> and \<^verbatim>\<open>isDraggable\<close> and the node's own methods are not part of the
  sources: each answer is a field.  \<open>isCopyable_method\<close> is \<open>None\<close> for a node without
  an \<^verbatim>\<open>isCopyable\<close> method, else what the method returns.
\<close>

record focusable =
  self :: node
  isICopyable :: bool
  isIDeletable :: bool
  isDraggable :: bool
  isCopyable_method :: "bool option"
  isOwnDeletable :: bool
  isOwnMovable :: bool
  isDeletable :: bool
  isMovable :: bool

record shortcut_context =
  isReadOnly :: bool
  isDragging :: bool
  ephemeralFocusTaken :: bool
  focusedScope :: "focusable option"

definition isCopyable :: "focusable \<Rightarrow> bool" where
  "isCopyable focused =
     (if \<not> isICopyable focused \<or> \<not> isIDeletable focused \<or> \<not> isDraggable focused then False
      else case isCopyable_method focused of
             Some r \<Rightarrow> r
           | None \<Rightarrow>
               (case self focused of
                  BlockSvg _ \<Rightarrow> isOwnDeletable focused \<and> isOwnMovable focused
                | RenderedWorkspaceComment _ \<Rightarrow> isOwnDeletable focused \<and> isOwnMovable focused
                | _ \<Rightarrow> isDeletable focused \<and> isMovable focused))"

definition isCuttable :: "focusable \<Rightarrow> bool" where
  "isCuttable focused = (isCopyable focused \<and> isIDeletable focused \<and> isDeletable focused)"

text \<open>\<^verbatim>\<open>preconditionFn\<close> of the shortcut registered by \<^verbatim>\<open>registerCut\<close>.\<close>

definition cut_preconditionFn :: "shortcut_context \<Rightarrow> bool" where
  "cut_preconditionFn c =
     (case focusedScope c of
        None \<Rightarrow> False
      | Some focused \<Rightarrow>
          \<not> isReadOnly c \<and> \<not> isDragging c \<and> \<not> ephemeralFocusTaken c \<and> isCuttable focused)"

section \<open>A workspace to run the definitions on\<close>

text \<open>
  A stack of three statement blocks 0, 1, 2; block 1 has inline inputs and holds the
  value block 3 in its only input (input 0, connection 4).  Connection 0 is the next
  connection of block 0, connections 1 and 2 the previous and next connections of block 1,
  connection 3 the previous connection of block 2, connection 5 the output connection of
  block 3.  The navigator lists the stack under the workspace, block 3 under block 1, and
  wraps around the stack when the cursor loops.
\<close>

definition example_navigator :: navigator where
  "example_navigator =
     \<lparr> getFirstChild = (\<lambda>l. [WorkspaceSvg \<mapsto> BlockSvg 0, BlockSvg 1 \<mapsto> BlockSvg 3]),
       getNextSibling = (\<lambda>l. if l
          then [BlockSvg 0 \<mapsto> BlockSvg 1, BlockSvg 1 \<mapsto> BlockSvg 2, BlockSvg 2 \<mapsto> BlockSvg 0]
          else [BlockSvg 0 \<mapsto> BlockSvg 1, BlockSvg 1 \<mapsto> BlockSvg 2]),
       getPreviousSibling = (\<lambda>l. if l
          then [BlockSvg 0 \<mapsto> BlockSvg 2, BlockSvg 1 \<mapsto> BlockSvg 0, BlockSvg 2 \<mapsto> BlockSvg 1]
          else [BlockSvg 1 \<mapsto> BlockSvg 0, BlockSvg 2 \<mapsto> BlockSvg 1]),
       getParent = (\<lambda>l. [BlockSvg 0 \<mapsto> WorkspaceSvg, BlockSvg 1 \<mapsto> WorkspaceSvg,
                          BlockSvg 2 \<mapsto> WorkspaceSvg, BlockSvg 3 \<mapsto> BlockSvg 1]) \<rparr>"

definition example_workspace :: workspace where
  "example_workspace =
     \<lparr> getNavigator = example_navigator,
       outputConnection = [3 \<mapsto> 5],
       previousConnection = [1 \<mapsto> 1, 2 \<mapsto> 3],
       getNextBlock = [0 \<mapsto> 1, 1 \<mapsto> 2],
       block_getParent = [1 \<mapsto> 0, 2 \<mapsto> 1, 3 \<mapsto> 1],
       getInputsInline = (\<lambda>b. b = 1),
       statementInputCount = (\<lambda>b. 0),
       inputList = (\<lambda>b. if b = 1 then [0] else []),
       disposed = (\<lambda>b. False),
       getNestingLevel = (\<lambda>b. if b = 3 then 1 else 0),
       connection_type = (\<lambda>c. if c = 0 \<or> c = 2 then NEXT_STATEMENT
                                else if c = 1 \<or> c = 3 then PREVIOUS_STATEMENT
                                else if c = 4 then INPUT_VALUE else OUTPUT_VALUE),
       getSourceBlock = (\<lambda>c. if c = 0 then 0 else if c = 1 \<or> c = 2 \<or> c = 4 then 1
                               else if c = 3 then 2 else 3),
       getParentInput = [4 \<mapsto> 0],
       targetConnection = [0 \<mapsto> 1, 1 \<mapsto> 0, 2 \<mapsto> 3, 3 \<mapsto> 2, 4 \<mapsto> 5, 5 \<mapsto> 4],
       targetBlock = [0 \<mapsto> 1, 1 \<mapsto> 0, 2 \<mapsto> 2, 3 \<mapsto> 1, 4 \<mapsto> 3, 5 \<mapsto> 1],
       input_getSourceBlock = (\<lambda>i. 1),
       field_getSourceBlock = (\<lambda>f. None) \<rparr>"

text \<open>The same workspace after block 1 has been deleted, with block 3 inside it.\<close>

definition example_after_delete :: workspace where
  "example_after_delete = example_workspace\<lparr>disposed := (\<lambda>b. b = 1 \<or> b = 3)\<rparr>"

text \<open>A cursor with no deletion pending, given its loop mode and its position.\<close>

definition example_state :: "bool \<Rightarrow> node option \<Rightarrow> cursor_state" where
  "example_state loops cur =
     \<lparr> potentialNodes = None, navigationLoops = loops, focusedNode = cur, beeps = [] \<rparr>"

text \<open>
  A navigator whose links have cycles: blocks 0 and 1 are each other's parent, and blocks 3
  and 4 are each other's first child; block 3 is the previous sibling of block 2.
\<close>

definition cyclic_navigator :: navigator where
  "cyclic_navigator =
     \<lparr> getFirstChild = (\<lambda>l. [BlockSvg 3 \<mapsto> BlockSvg 4, BlockSvg 4 \<mapsto> BlockSvg 3]),
       getNextSibling = (\<lambda>l. Map.empty),
       getPreviousSibling = (\<lambda>l. [BlockSvg 2 \<mapsto> BlockSvg 3]),
       getParent = (\<lambda>l. [BlockSvg 0 \<mapsto> BlockSvg 1, BlockSvg 1 \<mapsto> BlockSvg 0]) \<rparr>"

text \<open>A focused block that is copyable but not deletable.\<close>

definition example_focusable :: focusable where
  "example_focusable =
     \<lparr> self = BlockSvg 0, isICopyable = True, isIDeletable = True, isDraggable = True,
       isCopyable_method = Some True, isOwnDeletable = True, isOwnMovable = True,
       isDeletable = False, isMovable = True \<rparr>"

section \<open>Evaluating the examples\<close>

lemmas example_defs =
  example_workspace_def example_navigator_def example_after_delete_def example_state_def

lemmas cursor_defs =
  getCurNode_def getNavigationLoops_def setNavigationLoops_def getFirstNode_def
  getSourceBlockFromNode_def setCurNode_def nextCandidate_def previousCandidate_def

lemmas traversal_simps =
  getNextNodeImpl.simps getPreviousNodeImpl.simps nextOfAncestor.simps
  getRightMostChild.simps lastSiblingBefore.simps

section \<open>The loop flag is restored\<close>

lemma setNavigationLoops_restore:
  "setNavigationLoops (getNavigationLoops s) (setNavigationLoops l s) = s"
  by (simp add: setNavigationLoops_def getNavigationLoops_def)

lemma navigationLoops_set: "navigationLoops (setNavigationLoops l s) = l"
  by (simp add: setNavigationLoops_def)

text \<open>
  \<^verbatim>\<open>getPreviousNode\<close>, \<^verbatim>\<open>getLastNode\<close> and \<^verbatim>\<open>getNextNode\<close> without the state: the
  navigator is asked with the flag the call was given, and the state returned is the state
  the call started from.
\<close>

lemma getPreviousNode_eq:
  "getPreviousNode w s node isValid loop =
     map_option (\<lambda>r. (r, s))
       (if node = None \<or> (\<not> loop \<and> getFirstChild (getNavigator w) loop WorkspaceSvg = node)
        then Some None
        else getPreviousNodeImpl (getNavigator w) loop isValid node {})"
  by (cases loop)
     (auto simp: getPreviousNode_def Let_def setNavigationLoops_restore navigationLoops_set
        getFirstNode_def map_conv_bind_option comp_def)

lemma getLastNode_eq:
  "getLastNode w s =
     map_option (\<lambda>r. (r, s))
       (case getFirstChild (getNavigator w) (navigationLoops s) WorkspaceSvg of
          None \<Rightarrow> Some None
        | Some first \<Rightarrow>
            getPreviousNodeImpl (getNavigator w) True (\<lambda>c. Some True) (Some first) {})"
  by (simp add: getLastNode_def Let_def getPreviousNode_eq getFirstNode_def split: option.splits)

lemma getNextNode_eq:
  "getNextNode w s node isValid loop =
     map_option (\<lambda>r. (r, s))
       (if node = None then Some None
        else if loop then getNextNodeImpl (getNavigator w) True isValid node {}
        else do {
          lastNode \<leftarrow>
            (case getFirstChild (getNavigator w) False WorkspaceSvg of
               None \<Rightarrow> Some None
             | Some first \<Rightarrow>
                 getPreviousNodeImpl (getNavigator w) True (\<lambda>c. Some True) (Some first) {});
          if lastNode = node then Some None
          else getNextNodeImpl (getNavigator w) False isValid node {}
        })"
  by (auto simp add: getNextNode_def Let_def setNavigationLoops_restore navigationLoops_set
      getLastNode_eq map_conv_bind_option comp_def split: option.splits bind_splits)

lemma getNextNode_state: "getNextNode w s node isValid loop = Some (r, s') \<Longrightarrow> s' = s"
  by (auto simp: getNextNode_eq)

lemma getPreviousNode_state: "getPreviousNode w s node isValid loop = Some (r, s') \<Longrightarrow> s' = s"
  by (auto simp: getPreviousNode_eq)

text \<open>
  Claim C10.  \<^verbatim>\<open>getNextNode\<close> and \<^verbatim>\<open>getPreviousNode\<close> leave the cursor's
  \<^verbatim>\<open>navigationLoops\<close> flag as they found it: whenever either returns, with a node or with
  \<open>null\<close>, the flag has its value from before the call, whatever the \<open>loop\<close> argument was;
  indeed the whole cursor state is the one from before the call.
\<close>

theorem navigation_loops_restored:
  "(getNextNode w s node isValid loop = Some (r, s') \<longrightarrow>
      navigationLoops s' = navigationLoops s \<and> s' = s) \<and>
   (getPreviousNode w s node isValid loop = Some (r, s') \<longrightarrow>
      navigationLoops s' = navigationLoops s \<and> s' = s)"
  by (auto dest: getNextNode_state getPreviousNode_state)

theorem navigation_loops_restored_witness:
  "getNextNode example_workspace (example_state True (Some (BlockSvg 2))) (Some (BlockSvg 2))
     (\<lambda>c. Some True) False = Some (None, example_state True (Some (BlockSvg 2))) \<and>
   getPreviousNode example_workspace (example_state True (Some (BlockSvg 2))) (Some (BlockSvg 2))
     (\<lambda>c. Some True) False = Some (Some (BlockSvg 3), example_state True (Some (BlockSvg 2))) \<and>
   navigationLoops (example_state True (Some (BlockSvg 2))) = True"
  using navigation_loops_restored
    [of example_workspace "example_state True (Some (BlockSvg 2))" "Some (BlockSvg 2)"
        "\<lambda>c. Some True" False None "example_state True (Some (BlockSvg 2))"]
    navigation_loops_restored
    [of example_workspace "example_state True (Some (BlockSvg 2))" "Some (BlockSvg 2)"
        "\<lambda>c. Some True" False "Some (BlockSvg 3)" "example_state True (Some (BlockSvg 2))"]
  by (simp add: getNextNode_eq getPreviousNode_eq example_defs cursor_defs traversal_simps)

section \<open>First and last node\<close>

text \<open>
  Claim C5.  \<^verbatim>\<open>getLastNode()\<close> is \<^verbatim>\<open>getPreviousNode(getFirstNode(), () => true, true)\<close>:
  one backward step with looping enabled, under the predicate that accepts everything,
  from the first node; and the first node is the navigator's first child of the workspace.
\<close>

theorem getLastNode_is_backward_loop_step:
  "getLastNode w s = getPreviousNode w s (getFirstNode w s) (\<lambda>n. Some True) True \<and>
   getFirstNode w s = getFirstChild (getNavigator w) (navigationLoops s) WorkspaceSvg"
  by (simp add: getLastNode_def getFirstNode_def)

theorem getLastNode_is_backward_loop_step_witness:
  "getLastNode example_workspace (example_state False None) =
     Some (Some (BlockSvg 2), example_state False None) \<and>
   getFirstNode example_workspace (example_state False None) = Some (BlockSvg 0)"
  using getLastNode_is_backward_loop_step [of example_workspace "example_state False None"]
  by (simp add: getPreviousNode_eq example_defs cursor_defs traversal_simps)

section \<open>Moving the cursor\<close>

lemma getCurNode_setCurNode: "getCurNode (setCurNode w n s) = Some n"
  by (simp add: setCurNode_def getCurNode_def Let_def split: option.splits prod.splits)

lemma potentialNodes_setCurNode: "potentialNodes (setCurNode w n s) = potentialNodes s"
  by (simp add: setCurNode_def Let_def split: option.splits prod.splits)

text \<open>
  Claim C4.  With a current node, \<^verbatim>\<open>atEndOfLine()\<close> returns whether the node found by the
  forward traversal under the IN predicate is the node found by the forward traversal
  under the NEXT predicate, both from the current node and with the cursor's loop mode:
  true when they are the same (also when both are \<open>null\<close>), false when they differ (also
  when exactly one is \<open>null\<close>).  The cursor state is left as it was.
\<close>

theorem atEndOfLine_compares_in_and_next:
  assumes "getCurNode s = Some curNode"
    and "getNextNode w s (Some curNode) (getValidationFunction w (Some curNode) IN)
           (getNavigationLoops s) = Some (inNode, s1)"
    and "getNextNode w s (Some curNode) (getValidationFunction w (Some curNode) NEXT)
           (getNavigationLoops s) = Some (nextNode, s2)"
  shows "atEndOfLine w s = Some (inNode = nextNode, s)"
proof -
  have s1: "s1 = s" using assms(2) by (rule getNextNode_state)
  have s2: "s2 = s" using assms(3) by (rule getNextNode_state)
  show ?thesis
    using assms unfolding s1 s2 by (simp add: atEndOfLine_def)
qed

theorem atEndOfLine_compares_in_and_next_witness:
  "getCurNode (example_state True (Some (BlockSvg 1))) = Some (BlockSvg 1) \<and>
   atEndOfLine example_workspace (example_state True (Some (BlockSvg 1))) =
     Some (Some (BlockSvg 3) = Some (BlockSvg 2), example_state True (Some (BlockSvg 1)))"
proof -
  let ?s = "example_state True (Some (BlockSvg 1))"
  have cur: "getCurNode ?s = Some (BlockSvg 1)"
    by (simp add: example_defs cursor_defs)
  have inNode: "getNextNode example_workspace ?s (Some (BlockSvg 1))
      (getValidationFunction example_workspace (Some (BlockSvg 1)) IN) (getNavigationLoops ?s)
      = Some (Some (BlockSvg 3), ?s)"
    by (simp add: getNextNode_eq example_defs cursor_defs traversal_simps
          getValidationFunction_def)
  have nextNode: "getNextNode example_workspace ?s (Some (BlockSvg 1))
      (getValidationFunction example_workspace (Some (BlockSvg 1)) NEXT) (getNavigationLoops ?s)
      = Some (Some (BlockSvg 2), ?s)"
    by (simp add: getNextNode_eq example_defs cursor_defs traversal_simps
          getValidationFunction_def)
  from cur atEndOfLine_compares_in_and_next [OF cur inNode nextNode] show ?thesis by simp
qed

text \<open>Each operation, by what its traversal does.\<close>

lemma cursor_next_eq:
  "cursor_next w s =
     (case getCurNode s of
        None \<Rightarrow> Some (None, s)
      | Some c \<Rightarrow>
          (case getNextNode w s (Some c) (getValidationFunction w (Some c) NEXT)
                  (getNavigationLoops s) of
             None \<Rightarrow> None
           | Some (None, s1) \<Rightarrow> Some (None, s)
           | Some (Some m, s1) \<Rightarrow> Some (Some m, setCurNode w m s)))"
proof (cases "getCurNode s")
  case None
  then show ?thesis by (simp add: cursor_next_def)
next
  case cur: (Some c)
  show ?thesis
  proof (cases "getNextNode w s (Some c) (getValidationFunction w (Some c) NEXT)
                  (getNavigationLoops s)")
    case None
    with cur show ?thesis by (simp add: cursor_next_def)
  next
    case (Some rs)
    obtain r s1 where rs: "rs = (r, s1)" by (cases rs)
    with Some have "s1 = s" by (auto dest: getNextNode_state)
    with Some cur rs show ?thesis by (simp add: cursor_next_def split: option.splits)
  qed
qed

lemma cursor_in_eq:
  "cursor_in w s =
     (case getCurNode s of
        None \<Rightarrow> Some (None, s)
      | Some c \<Rightarrow>
          (case getNextNode w s (Some c) (getValidationFunction w (Some c) IN)
                  (getNavigationLoops s) of
             None \<Rightarrow> None
           | Some (None, s1) \<Rightarrow> Some (None, s)
           | Some (Some m, s1) \<Rightarrow> Some (Some m, setCurNode w m s)))"
proof (cases "getCurNode s")
  case None
  then show ?thesis by (simp add: cursor_in_def)
next
  case cur: (Some c)
  show ?thesis
  proof (cases "getNextNode w s (Some c) (getValidationFunction w (Some c) IN)
                  (getNavigationLoops s)")
    case None
    with cur show ?thesis by (simp add: cursor_in_def)
  next
    case (Some rs)
    obtain r s1 where rs: "rs = (r, s1)" by (cases rs)
    with Some have "s1 = s" by (auto dest: getNextNode_state)
    with Some cur rs show ?thesis by (simp add: cursor_in_def split: option.splits)
  qed
qed

lemma cursor_prev_eq:
  "cursor_prev w s =
     (case getCurNode s of
        None \<Rightarrow> Some (None, s)
      | Some c \<Rightarrow>
          (case getPreviousNode w s (Some c) (getValidationFunction w (Some c) PREVIOUS)
                  (getNavigationLoops s) of
             None \<Rightarrow> None
           | Some (None, s1) \<Rightarrow> Some (None, s)
           | Some (Some m, s1) \<Rightarrow> Some (Some m, setCurNode w m s)))"
proof (cases "getCurNode s")
  case None
  then show ?thesis by (simp add: cursor_prev_def)
next
  case cur: (Some c)
  show ?thesis
  proof (cases "getPreviousNode w s (Some c) (getValidationFunction w (Some c) PREVIOUS)
                  (getNavigationLoops s)")
    case None
    with cur show ?thesis by (simp add: cursor_prev_def)
  next
    case (Some rs)
    obtain r s1 where rs: "rs = (r, s1)" by (cases rs)
    with Some have "s1 = s" by (auto dest: getPreviousNode_state)
    with Some cur rs show ?thesis by (simp add: cursor_prev_def split: option.splits)
  qed
qed

lemma cursor_out_eq:
  "cursor_out w s =
     (case getCurNode s of
        None \<Rightarrow> Some (None, s)
      | Some c \<Rightarrow>
          (case getPreviousNode w s (Some c) (getValidationFunction w (Some c) OUT)
                  (getNavigationLoops s) of
             None \<Rightarrow> None
           | Some (None, s1) \<Rightarrow> Some (None, s)
           | Some (Some m, s1) \<Rightarrow> Some (Some m, setCurNode w m s)))"
proof (cases "getCurNode s")
  case None
  then show ?thesis by (simp add: cursor_out_def)
next
  case cur: (Some c)
  show ?thesis
  proof (cases "getPreviousNode w s (Some c) (getValidationFunction w (Some c) OUT)
                  (getNavigationLoops s)")
    case None
    with cur show ?thesis by (simp add: cursor_out_def)
  next
    case (Some rs)
    obtain r s1 where rs: "rs = (r, s1)" by (cases rs)
    with Some have "s1 = s" by (auto dest: getPreviousNode_state)
    with Some cur rs show ?thesis by (simp add: cursor_out_def split: option.splits)
  qed
qed

text \<open>
  Claim C6.  Each of \<^verbatim>\<open>next()\<close>, \<^verbatim>\<open>prev()\<close>, \<^verbatim>\<open>in()\<close> and \<^verbatim>\<open>out()\<close> moves the
  cursor only to a node its traversal found.  \<^verbatim>\<open>next\<close> and \<^verbatim>\<open>in\<close> traverse with
  \<^verbatim>\<open>getNextNode\<close>, \<^verbatim>\<open>prev\<close> and \<^verbatim>\<open>out\<close> with \<^verbatim>\<open>getPreviousNode\<close>, from the current
  node, under the validation function of their direction and with the cursor's loop mode.
  Without a current node the operation returns \<open>null\<close> and changes nothing.  When the
  traversal returns \<open>null\<close>, the operation returns \<open>null\<close> and the cursor state, and so the
  current position, is unchanged.  When the traversal returns a node, the operation
  returns that node and the only change is \<^verbatim>\<open>setCurNode\<close> of it, which makes it the
  current position.  When the traversal does not return, neither does the operation.
  Hence whenever the operation returns \<open>null\<close> the state is unchanged, and whenever it
  returns a node the state is \<^verbatim>\<open>setCurNode\<close> of that node.
\<close>

theorem moves_only_to_found_node:
  assumes "(op = cursor_next \<and> traverse = getNextNode \<and> direction = NEXT) \<or>
           (op = cursor_in \<and> traverse = getNextNode \<and> direction = IN) \<or>
           (op = cursor_prev \<and> traverse = getPreviousNode \<and> direction = PREVIOUS) \<or>
           (op = cursor_out \<and> traverse = getPreviousNode \<and> direction = OUT)"
  shows "(getCurNode s = None \<longrightarrow> op w s = Some (None, s)) \<and>
         (getCurNode s = Some curNode \<and>
          traverse w s (Some curNode) (getValidationFunction w (Some curNode) direction)
            (getNavigationLoops s) = Some (None, s1) \<longrightarrow>
            op w s = Some (None, s)) \<and>
         (getCurNode s = Some curNode \<and>
          traverse w s (Some curNode) (getValidationFunction w (Some curNode) direction)
            (getNavigationLoops s) = Some (Some n, s1) \<longrightarrow>
            op w s = Some (Some n, setCurNode w n s) \<and>
            getCurNode (setCurNode w n s) = Some n) \<and>
         (getCurNode s = Some curNode \<and>
          traverse w s (Some curNode) (getValidationFunction w (Some curNode) direction)
            (getNavigationLoops s) = None \<longrightarrow>
            op w s = None) \<and>
         (op w s = Some (None, s') \<longrightarrow> s' = s \<and> getCurNode s' = getCurNode s) \<and>
         (op w s = Some (Some n, s') \<longrightarrow> s' = setCurNode w n s \<and> getCurNode s' = Some n)"
  using assms
  by (auto simp: cursor_next_eq cursor_in_eq cursor_prev_eq cursor_out_eq
        getCurNode_setCurNode split: option.splits)

theorem moves_only_to_found_node_witness:
  "getCurNode (example_state False (Some (BlockSvg 2))) = Some (BlockSvg 2) \<and>
   getNextNode example_workspace (example_state False (Some (BlockSvg 2))) (Some (BlockSvg 2))
     (getValidationFunction example_workspace (Some (BlockSvg 2)) NEXT)
     (getNavigationLoops (example_state False (Some (BlockSvg 2)))) =
     Some (None, example_state False (Some (BlockSvg 2))) \<and>
   cursor_next example_workspace (example_state False (Some (BlockSvg 2))) =
     Some (None, example_state False (Some (BlockSvg 2))) \<and>
   getPreviousNode example_workspace (example_state False (Some (BlockSvg 2))) (Some (BlockSvg 2))
     (getValidationFunction example_workspace (Some (BlockSvg 2)) PREVIOUS)
     (getNavigationLoops (example_state False (Some (BlockSvg 2)))) =
     Some (Some (BlockSvg 1), example_state False (Some (BlockSvg 2))) \<and>
   cursor_prev example_workspace (example_state False (Some (BlockSvg 2))) =
     Some (Some (BlockSvg 1), example_state False (Some (BlockSvg 1)))"
proof -
  let ?s = "example_state False (Some (BlockSvg 2))"
  have cur: "getCurNode ?s = Some (BlockSvg 2)"
    by (simp add: example_defs cursor_defs)
  have nxt: "getNextNode example_workspace ?s (Some (BlockSvg 2))
      (getValidationFunction example_workspace (Some (BlockSvg 2)) NEXT) (getNavigationLoops ?s)
      = Some (None, ?s)"
    by (simp add: getNextNode_eq example_defs cursor_defs traversal_simps
          getValidationFunction_def)
  have prv: "getPreviousNode example_workspace ?s (Some (BlockSvg 2))
      (getValidationFunction example_workspace (Some (BlockSvg 2)) PREVIOUS)
      (getNavigationLoops ?s) = Some (Some (BlockSvg 1), ?s)"
    by (simp add: getPreviousNode_eq example_defs cursor_defs traversal_simps
          getValidationFunction_def)
  have moved: "setCurNode example_workspace (BlockSvg 1) ?s =
      example_state False (Some (BlockSvg 1))"
    by (simp add: example_defs cursor_defs)
  from moves_only_to_found_node
         [of cursor_next getNextNode NEXT ?s example_workspace "BlockSvg 2" ?s]
       moves_only_to_found_node
         [of cursor_prev getPreviousNode PREVIOUS ?s example_workspace "BlockSvg 2" _
             "BlockSvg 1" ?s]
       cur nxt prv moved
  show ?thesis by simp
qed

section \<open>Deletion recovery\<close>

text \<open>The loop of \<^verbatim>\<open>postDelete\<close> finds the first candidate that passes the test.\<close>

lemma postDelete_loop_find:
  "postDelete_loop w nodes s =
     (case find (sourceBlockNotDisposed w) nodes of
        None \<Rightarrow> (Inl (Error ''no valid nodes in this.potentialNodes''), s)
      | Some n \<Rightarrow> (Inr (), setCurNode w n s))"
  by (induction nodes) simp_all

lemma postDelete_find:
  "postDelete w s =
     (case potentialNodes s of
        None \<Rightarrow> (Inl (Error ''must call preDelete first''), s\<lparr>potentialNodes := None\<rparr>)
      | Some nodes \<Rightarrow>
          (case find (sourceBlockNotDisposed w) nodes of
             None \<Rightarrow> (Inl (Error ''no valid nodes in this.potentialNodes''),
                       s\<lparr>potentialNodes := None\<rparr>)
           | Some n \<Rightarrow> (Inr (), setCurNode w n (s\<lparr>potentialNodes := None\<rparr>))))"
  by (simp add: postDelete_def Let_def postDelete_loop_find split: option.splits)

lemma preDelete_candidates:
  "potentialNodes (preDelete w deletedBlock s) =
     Some ((case getCurNode s of Some n \<Rightarrow> [n] | None \<Rightarrow> []) @
           (case (case Option.bind (previousConnection w deletedBlock) (targetConnection w) of
                    Some c \<Rightarrow> Some c
                  | None \<Rightarrow> Option.bind (outputConnection w deletedBlock) (targetConnection w)) of
              Some c \<Rightarrow> [RenderedConnection c]
            | None \<Rightarrow> []) @
           (case getNextBlock w deletedBlock of Some nb \<Rightarrow> [BlockSvg nb] | None \<Rightarrow> []) @
           (case block_getParent w deletedBlock of Some pb \<Rightarrow> [BlockSvg pb] | None \<Rightarrow> []) @
           [WorkspaceSvg])"
  by (simp add: preDelete_def Let_def split: option.splits)

text \<open>
  Claim C8.  \<^verbatim>\<open>postDelete()\<close> throws in exactly two situations: no candidate list is
  pending, or every candidate of the pending list has an owning block and that block is
  disposed.  When it throws, the current position is left as it was; when it returns, the
  current position is a candidate of the list that passes the test.  Either way no list
  is pending afterwards.
\<close>

theorem postDelete_raises_exactly_when:
  "((\<exists>e. fst (postDelete w s) = Inl e) \<longleftrightarrow>
      (potentialNodes s = None \<or>
       (\<exists>nodes. potentialNodes s = Some nodes \<and>
          (\<forall>n \<in> set nodes. \<exists>b. getSourceBlockFromNode w (Some n) = Some b \<and> disposed w b)))) \<and>
   ((\<exists>e. fst (postDelete w s) = Inl e) \<longrightarrow>
      getCurNode (snd (postDelete w s)) = getCurNode s) \<and>
   (fst (postDelete w s) = Inr () \<longrightarrow>
      (\<exists>nodes n. potentialNodes s = Some nodes \<and> n \<in> set nodes \<and>
         sourceBlockNotDisposed w n \<and> getCurNode (snd (postDelete w s)) = Some n)) \<and>
   potentialNodes (snd (postDelete w s)) = None"
proof -
  have not_survives: "(\<not> sourceBlockNotDisposed w n) =
      (\<exists>b. getSourceBlockFromNode w (Some n) = Some b \<and> disposed w b)" for n
    by (auto simp: sourceBlockNotDisposed_def split: option.splits)
  show ?thesis
  proof (cases "potentialNodes s")
    case None
    then show ?thesis by (simp add: postDelete_find getCurNode_def)
  next
    case (Some nodes)
    show ?thesis
    proof (cases "find (sourceBlockNotDisposed w) nodes")
      case None
      then have "\<forall>n \<in> set nodes. \<not> sourceBlockNotDisposed w n"
        by (simp add: find_None_iff)
      then show ?thesis using Some None
        by (simp add: postDelete_find getCurNode_def not_survives)
    next
      case (Some n)
      then have "n \<in> set nodes" "sourceBlockNotDisposed w n"
        by (auto simp: find_Some_iff)
      then show ?thesis using Some \<open>potentialNodes s = Some nodes\<close>
        by (auto simp: postDelete_find getCurNode_setCurNode potentialNodes_setCurNode
              not_survives [symmetric])
    qed
  qed
qed

theorem postDelete_raises_exactly_when_witness:
  "fst (postDelete example_after_delete (example_state True (Some (BlockSvg 0)))) =
     Inl (Error ''must call preDelete first'') \<and>
   fst (postDelete example_after_delete
     ((example_state True (Some (BlockSvg 0)))
        \<lparr>potentialNodes := Some [BlockSvg 1, RenderedConnection 2]\<rparr>)) =
     Inl (Error ''no valid nodes in this.potentialNodes'') \<and>
   getCurNode (snd (postDelete example_after_delete
     ((example_state True (Some (BlockSvg 0)))
        \<lparr>potentialNodes := Some [BlockSvg 1, RenderedConnection 2]\<rparr>))) = Some (BlockSvg 0) \<and>
   postDelete example_after_delete
     ((example_state True (Some (BlockSvg 0)))\<lparr>potentialNodes := Some [BlockSvg 1, BlockSvg 2]\<rparr>) =
     (Inr (), example_state True (Some (BlockSvg 2)))"
  using postDelete_raises_exactly_when
    [of example_after_delete
        "(example_state True (Some (BlockSvg 0)))
           \<lparr>potentialNodes := Some [BlockSvg 1, RenderedConnection 2]\<rparr>"]
  by (simp add: postDelete_def sourceBlockNotDisposed_def example_defs cursor_defs)

text \<open>
  Claim C1.  \<^verbatim>\<open>preDelete(deletedBlock)\<close> records, in this order: the current position
  if there is one; the connection the deleted block is attached to through its previous
  connection, else through its output connection, if there is one; the block after the
  deleted block, if any; the parent block of the deleted block, if any; the workspace.
  \<^verbatim>\<open>postDelete()\<close> then moves the cursor to the first recorded candidate whose owning
  block, if it has one, is not disposed.  In particular, with the cursor on a block that
  is attached by its previous connection to a connection of a block that survives, the
  position after \<^verbatim>\<open>preDelete\<close>, the removal and \<^verbatim>\<open>postDelete\<close> is that connection.  The
  workspace \<open>w2\<close> and the state \<open>s2\<close> are those at the time of \<^verbatim>\<open>postDelete\<close>.
\<close>

theorem deletion_recovery_first_survivor:
  "potentialNodes (preDelete w deletedBlock s) =
     Some ((case getCurNode s of Some n \<Rightarrow> [n] | None \<Rightarrow> []) @
           (case (case Option.bind (previousConnection w deletedBlock) (targetConnection w) of
                    Some c \<Rightarrow> Some c
                  | None \<Rightarrow> Option.bind (outputConnection w deletedBlock) (targetConnection w)) of
              Some c \<Rightarrow> [RenderedConnection c]
            | None \<Rightarrow> []) @
           (case getNextBlock w deletedBlock of Some nb \<Rightarrow> [BlockSvg nb] | None \<Rightarrow> []) @
           (case block_getParent w deletedBlock of Some pb \<Rightarrow> [BlockSvg pb] | None \<Rightarrow> []) @
           [WorkspaceSvg]) \<and>
   (potentialNodes s2 = Some nodes \<and> find (sourceBlockNotDisposed w2) nodes = Some n \<longrightarrow>
      postDelete w2 s2 = (Inr (), setCurNode w2 n (s2\<lparr>potentialNodes := None\<rparr>)) \<and>
      getCurNode (snd (postDelete w2 s2)) = Some n) \<and>
   (getCurNode s = Some (BlockSvg deletedBlock) \<and>
    previousConnection w deletedBlock = Some pc \<and> targetConnection w pc = Some ac \<and>
    disposed w2 deletedBlock \<and> \<not> disposed w2 (getSourceBlock w2 ac) \<and>
    potentialNodes s2 = potentialNodes (preDelete w deletedBlock s) \<longrightarrow>
      fst (postDelete w2 s2) = Inr () \<and>
      getCurNode (snd (postDelete w2 s2)) = Some (RenderedConnection ac))"
proof (intro conjI impI)
  show "potentialNodes (preDelete w deletedBlock s) =
     Some ((case getCurNode s of Some n \<Rightarrow> [n] | None \<Rightarrow> []) @
           (case (case Option.bind (previousConnection w deletedBlock) (targetConnection w) of
                    Some c \<Rightarrow> Some c
                  | None \<Rightarrow> Option.bind (outputConnection w deletedBlock) (targetConnection w)) of
              Some c \<Rightarrow> [RenderedConnection c]
            | None \<Rightarrow> []) @
           (case getNextBlock w deletedBlock of Some nb \<Rightarrow> [BlockSvg nb] | None \<Rightarrow> []) @
           (case block_getParent w deletedBlock of Some pb \<Rightarrow> [BlockSvg pb] | None \<Rightarrow> []) @
           [WorkspaceSvg])"
    by (rule preDelete_candidates)
next
  assume "potentialNodes s2 = Some nodes \<and> find (sourceBlockNotDisposed w2) nodes = Some n"
  then show "postDelete w2 s2 = (Inr (), setCurNode w2 n (s2\<lparr>potentialNodes := None\<rparr>))"
    and "getCurNode (snd (postDelete w2 s2)) = Some n"
    by (simp_all add: postDelete_find getCurNode_setCurNode)
next
  assume a: "getCurNode s = Some (BlockSvg deletedBlock) \<and>
    previousConnection w deletedBlock = Some pc \<and> targetConnection w pc = Some ac \<and>
    disposed w2 deletedBlock \<and> \<not> disposed w2 (getSourceBlock w2 ac) \<and>
    potentialNodes s2 = potentialNodes (preDelete w deletedBlock s)"
  then obtain rest where nodes: "potentialNodes s2 =
      Some (BlockSvg deletedBlock # RenderedConnection ac # rest)"
    by (simp add: preDelete_candidates)
  have "find (sourceBlockNotDisposed w2) (BlockSvg deletedBlock # RenderedConnection ac # rest)
      = Some (RenderedConnection ac)"
    using a by (simp add: sourceBlockNotDisposed_def getSourceBlockFromNode_def)
  with nodes show "fst (postDelete w2 s2) = Inr ()"
    and "getCurNode (snd (postDelete w2 s2)) = Some (RenderedConnection ac)"
    by (simp_all add: postDelete_find getCurNode_setCurNode)
qed

theorem deletion_recovery_first_survivor_witness:
  "potentialNodes (preDelete example_workspace 1 (example_state True (Some (BlockSvg 1)))) =
     Some [BlockSvg 1, RenderedConnection 0, BlockSvg 2, BlockSvg 0, WorkspaceSvg] \<and>
   getCurNode (example_state True (Some (BlockSvg 1))) = Some (BlockSvg 1) \<and>
   previousConnection example_workspace 1 = Some 1 \<and>
   targetConnection example_workspace 1 = Some 0 \<and>
   disposed example_after_delete 1 \<and>
   \<not> disposed example_after_delete (getSourceBlock example_after_delete 0) \<and>
   postDelete example_after_delete
     (preDelete example_workspace 1 (example_state True (Some (BlockSvg 1)))) =
     (Inr (), example_state True (Some (RenderedConnection 0)))"
  using deletion_recovery_first_survivor
    [of example_workspace 1 "example_state True (Some (BlockSvg 1))"
        "preDelete example_workspace 1 (example_state True (Some (BlockSvg 1)))"
        "[BlockSvg 1, RenderedConnection 0, BlockSvg 2, BlockSvg 0, WorkspaceSvg]"
        example_after_delete "RenderedConnection 0" 1 0]
  by (simp add: preDelete_def postDelete_def sourceBlockNotDisposed_def example_defs cursor_defs)

section \<open>The cut shortcut\<close>

text \<open>
  Claim C9.  The precondition of the cut shortcut fails whenever the focused node fails
  the deletable check (\<^verbatim>\<open>isIDeletable(focused) && focused.isDeletable()\<close>), whatever the
  read-only flag, the drag flag and the other capabilities are.  The precondition holds
  exactly when a node is focused that is copyable and deletable, the workspace is neither
  read-only nor dragging, and no ephemeral focus is taken.
\<close>

theorem cut_requires_deletable:
  "(focusedScope c = Some focused \<and> \<not> (isIDeletable focused \<and> isDeletable focused) \<longrightarrow>
      \<not> cut_preconditionFn c) \<and>
   (cut_preconditionFn c \<longleftrightarrow>
      (\<exists>f. focusedScope c = Some f \<and> isCopyable f \<and> isIDeletable f \<and> isDeletable f \<and>
           \<not> isReadOnly c \<and> \<not> isDragging c \<and> \<not> ephemeralFocusTaken c))"
  by (auto simp: cut_preconditionFn_def isCuttable_def split: option.splits)

theorem cut_requires_deletable_witness:
  "\<not> (isIDeletable example_focusable \<and> isDeletable example_focusable) \<and>
   isCopyable example_focusable \<and>
   \<not> cut_preconditionFn \<lparr> isReadOnly = False, isDragging = False, ephemeralFocusTaken = False,
                            focusedScope = Some example_focusable \<rparr> \<and>
   cut_preconditionFn \<lparr> isReadOnly = False, isDragging = False, ephemeralFocusTaken = False,
                        focusedScope = Some (example_focusable\<lparr>isDeletable := True\<rparr>) \<rparr>"
  using cut_requires_deletable
    [of "\<lparr> isReadOnly = False, isDragging = False, ephemeralFocusTaken = False,
           focusedScope = Some example_focusable \<rparr>" example_focusable]
  by (simp add: example_focusable_def isCopyable_def cut_preconditionFn_def isCuttable_def)

section \<open>Admissible candidates\<close>

text \<open>
  Claim C2.  For the directions NEXT and PREVIOUS the validation function accepts every
  candidate that is a block whose output connection, if it has one, is not attached to a
  block; or a workspace comment; or a next-statement connection; or an input-value
  connection whose source block has a statement input and whose parent input is not the
  first input of that block.
\<close>

theorem statement_level_candidates_valid:
  assumes "direction = NEXT \<or> direction = PREVIOUS"
    and "(\<exists>b. candidate = BlockSvg b \<and>
              (\<forall>oc. outputConnection w b = Some oc \<longrightarrow> targetBlock w oc = None)) \<or>
         (\<exists>c. candidate = RenderedWorkspaceComment c) \<or>
         (\<exists>c. candidate = RenderedConnection c \<and> connection_type w c = NEXT_STATEMENT) \<or>
         (\<exists>c. candidate = RenderedConnection c \<and> connection_type w c = INPUT_VALUE \<and>
              0 < statementInputCount w (getSourceBlock w c) \<and>
              (\<forall>i rest. inputList w (getSourceBlock w c) = i # rest \<longrightarrow>
                 getParentInput w c \<noteq> Some i))"
  shows "getValidationFunction w curNode direction (Some candidate) = Some True"
  using assms
  by (auto simp: getValidationFunction_def inputList0_is_def split: option.splits list.splits)

theorem statement_level_candidates_valid_witness:
  "outputConnection example_workspace 0 = None \<and>
   getValidationFunction example_workspace (Some (BlockSvg 2)) PREVIOUS (Some (BlockSvg 0)) =
     Some True \<and>
   connection_type example_workspace 2 = NEXT_STATEMENT \<and>
   getValidationFunction example_workspace (Some (BlockSvg 2)) NEXT (Some (RenderedConnection 2)) =
     Some True"
  using statement_level_candidates_valid
    [of PREVIOUS "BlockSvg 0" example_workspace "Some (BlockSvg 2)"]
    statement_level_candidates_valid
    [of NEXT "RenderedConnection 2" example_workspace "Some (BlockSvg 2)"]
  by (simp add: example_defs)

section \<open>What a traversal returns is valid\<close>

lemma getPreviousNodeImpl_valid:
  assumes "getPreviousNodeImpl nav l isValid node visited = Some r"
  shows "\<forall>m. r = Some m \<longrightarrow> isValid (Some m) = Some True"
  by (rule getPreviousNodeImpl.raw_induct
        [where P = "\<lambda>nav l isValid node visited r.
                      \<forall>m. r = Some m \<longrightarrow> isValid (Some m) = Some True",
         OF _ assms])
     (auto split: option.splits if_splits bind_splits)

lemma getPreviousNode_valid:
  assumes "getPreviousNode w s node isValid loop = Some (Some m, s')"
  shows "isValid (Some m) = Some True"
proof -
  from assms have "getPreviousNodeImpl (getNavigator w) loop isValid node {} = Some (Some m)"
    by (auto simp: getPreviousNode_eq split: if_splits)
  then show ?thesis using getPreviousNodeImpl_valid by blast
qed

lemma inline_child_rejected:
  assumes "outputConnection w b = Some oc" and "targetBlock w oc = Some p"
    and "getInputsInline w p"
  shows "getValidationFunction w curNode PREVIOUS (Some (BlockSvg b)) = Some False"
  using assms
  by (auto simp: getValidationFunction_def split: option.splits node.splits)

text \<open>
  Claim C3.  A block whose output connection is plugged into a block that renders its
  inputs inline is rejected by the validation function of the direction PREVIOUS,
  whatever the current node is.  Hence a backward traversal under that function never
  returns such a block, and \<^verbatim>\<open>prev()\<close> never stops on it.
\<close>

theorem inline_child_never_previous:
  assumes "outputConnection w b = Some oc" and "targetBlock w oc = Some p"
    and "getInputsInline w p"
  shows "getValidationFunction w curNode PREVIOUS (Some (BlockSvg b)) = Some False \<and>
         getPreviousNode w s node (getValidationFunction w curNode PREVIOUS) loop \<noteq>
           Some (Some (BlockSvg b), s') \<and>
         cursor_prev w s \<noteq> Some (Some (BlockSvg b), s')"
proof (intro conjI)
  show rejected: "getValidationFunction w c PREVIOUS (Some (BlockSvg b)) = Some False" for c
    using assms by (rule inline_child_rejected)
  show "getPreviousNode w s node (getValidationFunction w curNode PREVIOUS) loop \<noteq>
          Some (Some (BlockSvg b), s')"
    using getPreviousNode_valid [of w s node "getValidationFunction w curNode PREVIOUS" loop
        "BlockSvg b" s'] rejected [of curNode]
    by auto
  show "cursor_prev w s \<noteq> Some (Some (BlockSvg b), s')"
  proof
    assume stop: "cursor_prev w s = Some (Some (BlockSvg b), s')"
    then obtain c s1 where "getCurNode s = Some c"
      and "getPreviousNode w s (Some c) (getValidationFunction w (Some c) PREVIOUS)
             (getNavigationLoops s) = Some (Some (BlockSvg b), s1)"
      by (auto simp: cursor_prev_def split: option.splits bind_splits)
    from getPreviousNode_valid [OF this(2)] rejected [of "Some c"] show False by simp
  qed
qed

theorem inline_child_never_previous_witness:
  "outputConnection example_workspace 3 = Some 5 \<and>
   targetBlock example_workspace 5 = Some 1 \<and>
   getInputsInline example_workspace 1 \<and>
   getValidationFunction example_workspace (Some (BlockSvg 2)) PREVIOUS (Some (BlockSvg 3)) =
     Some False \<and>
   cursor_prev example_workspace (example_state True (Some (BlockSvg 2))) =
     Some (Some (BlockSvg 1), example_state True (Some (BlockSvg 1)))"
proof -
  have h: "outputConnection example_workspace 3 = Some 5"
    "targetBlock example_workspace 5 = Some 1" "getInputsInline example_workspace 1"
    by (simp_all add: example_defs)
  have "cursor_prev example_workspace (example_state True (Some (BlockSvg 2))) =
     Some (Some (BlockSvg 1), example_state True (Some (BlockSvg 1)))"
    by (simp add: cursor_prev_def getPreviousNode_eq example_defs cursor_defs traversal_simps
          getValidationFunction_def)
  with h inline_child_never_previous [OF h, of "Some (BlockSvg 2)"] show ?thesis by simp
qed

section \<open>Termination of the traversal\<close>

lemma cyclic_navigator_sel:
  "getFirstChild cyclic_navigator l = [BlockSvg 3 \<mapsto> BlockSvg 4, BlockSvg 4 \<mapsto> BlockSvg 3]"
  "getNextSibling cyclic_navigator l = Map.empty"
  "getPreviousSibling cyclic_navigator l = [BlockSvg 2 \<mapsto> BlockSvg 3]"
  "getParent cyclic_navigator l = [BlockSvg 0 \<mapsto> BlockSvg 1, BlockSvg 1 \<mapsto> BlockSvg 0]"
  by (simp_all add: cyclic_navigator_def)

text \<open>On the parent cycle the climb never returns: no approximation of it does.\<close>

lemma nextOfAncestor_cyclic_aux:
  assumes "nextOfAncestor nav l t = Some y"
  shows "nav = cyclic_navigator \<longrightarrow> (t = BlockSvg 0 \<or> t = BlockSvg 1) \<longrightarrow> False"
proof (rule nextOfAncestor.raw_induct
        [where P = "\<lambda>nav l t y. nav = cyclic_navigator \<longrightarrow>
                      (t = BlockSvg 0 \<or> t = BlockSvg 1) \<longrightarrow> False",
         OF _ assms], goal_cases)
  case (1 rec nav l t y)
  show ?case
  proof (intro impI)
    assume nav: "nav = cyclic_navigator" and t: "t = BlockSvg 0 \<or> t = BlockSvg 1"
    from t show False
    proof
      assume "t = BlockSvg 0"
      with 1(2) nav have "rec cyclic_navigator l (BlockSvg 1) = Some y"
        by (simp add: cyclic_navigator_sel)
      from 1(1) [OF this] show False by simp
    next
      assume "t = BlockSvg 1"
      with 1(2) nav have "rec cyclic_navigator l (BlockSvg 0) = Some y"
        by (simp add: cyclic_navigator_sel)
      from 1(1) [OF this] show False by simp
    qed
  qed
qed

lemma nextOfAncestor_cyclic: "nextOfAncestor cyclic_navigator l (BlockSvg 0) = None"
  using nextOfAncestor_cyclic_aux [of cyclic_navigator l "BlockSvg 0"]
  by (cases "nextOfAncestor cyclic_navigator l (BlockSvg 0)") auto

lemma lastSiblingBefore_cyclic: "lastSiblingBefore cyclic_navigator l stop n = Some n"
  by (subst lastSiblingBefore.simps) (simp add: cyclic_navigator_sel)

lemma getRightMostChild_cyclic_aux:
  assumes "getRightMostChild nav l node stop = Some y"
  shows "nav = cyclic_navigator \<longrightarrow> (node = Some (BlockSvg 3) \<or> node = Some (BlockSvg 4)) \<longrightarrow>
     stop = BlockSvg 2 \<longrightarrow> False"
proof (rule getRightMostChild.raw_induct
        [where P = "\<lambda>nav l node stop y. nav = cyclic_navigator \<longrightarrow>
           (node = Some (BlockSvg 3) \<or> node = Some (BlockSvg 4)) \<longrightarrow> stop = BlockSvg 2 \<longrightarrow> False",
         OF _ assms], goal_cases)
  case (1 rec nav l node stop y)
  show ?case
  proof (intro impI)
    assume nav: "nav = cyclic_navigator"
      and node: "node = Some (BlockSvg 3) \<or> node = Some (BlockSvg 4)"
      and stop: "stop = BlockSvg 2"
    from node show False
    proof
      assume "node = Some (BlockSvg 3)"
      with 1(2) nav stop have "rec cyclic_navigator l (Some (BlockSvg 4)) (BlockSvg 2) = Some y"
        by (simp add: lastSiblingBefore_cyclic cyclic_navigator_sel)
      from 1(1) [OF this] show False by simp
    next
      assume "node = Some (BlockSvg 4)"
      with 1(2) nav stop have "rec cyclic_navigator l (Some (BlockSvg 3)) (BlockSvg 2) = Some y"
        by (simp add: lastSiblingBefore_cyclic cyclic_navigator_sel)
      from 1(1) [OF this] show False by simp
    qed
  qed
qed

lemma getRightMostChild_cyclic:
  "getRightMostChild cyclic_navigator l (Some (BlockSvg 3)) (BlockSvg 2) = None"
  using getRightMostChild_cyclic_aux [of cyclic_navigator l "Some (BlockSvg 3)" "BlockSvg 2"]
  by (cases "getRightMostChild cyclic_navigator l (Some (BlockSvg 3)) (BlockSvg 2)") auto

text \<open>
  Claim C7, as stated, fails: on a graph whose parent links form a cycle the forward
  traversal never returns, and on a graph whose first-child links form a cycle the
  backward traversal never returns, although the set of visited nodes is empty and the
  predicate accepts everything.  The loops that look for the candidate carry no visited
  set.
\<close>

theorem traversal_diverges_on_cycle:
  "getNextNodeImpl cyclic_navigator True (\<lambda>c. Some True) (Some (BlockSvg 0)) {} = None \<and>
   getPreviousNodeImpl cyclic_navigator True (\<lambda>c. Some True) (Some (BlockSvg 2)) {} = None"
proof
  have "nextCandidate cyclic_navigator True (BlockSvg 0) = None"
    by (simp add: nextCandidate_def nextOfAncestor_cyclic cyclic_navigator_sel)
  then show "getNextNodeImpl cyclic_navigator True (\<lambda>c. Some True) (Some (BlockSvg 0)) {} = None"
    by (subst getNextNodeImpl.simps) simp
  have "previousCandidate cyclic_navigator True (BlockSvg 2) = None"
    by (simp add: previousCandidate_def getRightMostChild_cyclic cyclic_navigator_sel)
  then show "getPreviousNodeImpl cyclic_navigator True (\<lambda>c. Some True) (Some (BlockSvg 2)) {} = None"
    by (subst getPreviousNodeImpl.simps) simp
qed

text \<open>The climb through the parents returns whenever the parent links are well-founded.\<close>

lemma nextOfAncestor_returns:
  assumes "wf {(p, n). getParent nav l n = Some p}"
  shows "\<exists>c. nextOfAncestor nav l n = Some c"
  using assms
proof (induction n rule: wf_induct_rule)
  case (less n)
  show ?case
  proof (cases "getParent nav l n")
    case None
    then show ?thesis by (subst nextOfAncestor.simps) simp
  next
    case (Some p)
    with less obtain c where "nextOfAncestor nav l p = Some c" by auto
    with Some show ?thesis
      by (subst nextOfAncestor.simps) (simp split: option.splits)
  qed
qed

lemma nextCandidate_returns:
  assumes "wf {(p, n). getParent nav l n = Some p}"
  shows "\<exists>c. nextCandidate nav l n = Some c"
  using nextOfAncestor_returns [OF assms, of n]
  by (simp add: nextCandidate_def split: option.splits)

text \<open>The recursion itself is bounded by the nodes not yet visited.\<close>

lemma getNextNodeImpl_returns:
  assumes fin: "finite N"
    and cand: "\<And>n. n \<in> N \<Longrightarrow>
                 \<exists>c. nextCandidate nav l n = Some c \<and> (\<forall>m. c = Some m \<longrightarrow> m \<in> N)"
    and valid: "\<And>c. isValid c \<noteq> None"
  shows "node \<in> N \<Longrightarrow> \<exists>r. getNextNodeImpl nav l isValid (Some node) visited = Some r"
proof (induction "card (N - visited)" arbitrary: node visited rule: less_induct)
  case less
  show ?case
  proof (cases "node \<in> visited")
    case True
    then show ?thesis by (subst getNextNodeImpl.simps) simp
  next
    case False
    from cand [OF less.prems] obtain c where c: "nextCandidate nav l node = Some c"
      and cN: "\<And>m. c = Some m \<Longrightarrow> m \<in> N" by blast
    from valid [of c] obtain v where v: "isValid c = Some v" by auto
    show ?thesis
    proof (cases "v \<or> c = None")
      case True
      then show ?thesis using False c v by (subst getNextNodeImpl.simps) auto
    next
      case stuck: False
      then obtain m where m: "c = Some m" by auto
      have "node \<in> N - visited" using less.prems False by simp
      then have "card (N - insert node visited) < card (N - visited)"
        using fin by (intro psubset_card_mono) auto
      from less.hyps [OF this cN [OF m]]
      obtain r where "getNextNodeImpl nav l isValid (Some m) (insert node visited) = Some r" ..
      then show ?thesis using False c v m stuck by (subst getNextNodeImpl.simps) auto
    qed
  qed
qed

lemma getPreviousNodeImpl_returns:
  assumes fin: "finite N"
    and cand: "\<And>n. n \<in> N \<Longrightarrow>
                 \<exists>c. previousCandidate nav l n = Some c \<and> (\<forall>m. c = Some m \<longrightarrow> m \<in> N)"
    and valid: "\<And>c. isValid c \<noteq> None"
  shows "node \<in> N \<Longrightarrow> \<exists>r. getPreviousNodeImpl nav l isValid (Some node) visited = Some r"
proof (induction "card (N - visited)" arbitrary: node visited rule: less_induct)
  case less
  show ?case
  proof (cases "node \<in> visited")
    case True
    then show ?thesis by (subst getPreviousNodeImpl.simps) simp
  next
    case False
    from cand [OF less.prems] obtain c where c: "previousCandidate nav l node = Some c"
      and cN: "\<And>m. c = Some m \<Longrightarrow> m \<in> N" by blast
    from valid [of c] obtain v where v: "isValid c = Some v" by auto
    show ?thesis
    proof (cases "v \<or> c = None")
      case True
      then show ?thesis using False c v by (subst getPreviousNodeImpl.simps) auto
    next
      case stuck: False
      then obtain m where m: "c = Some m" by auto
      have "node \<in> N - visited" using less.prems False by simp
      then have "card (N - insert node visited) < card (N - visited)"
        using fin by (intro psubset_card_mono) auto
      from less.hyps [OF this cN [OF m]]
      obtain r where "getPreviousNodeImpl nav l isValid (Some m) (insert node visited) = Some r" ..
      then show ?thesis using False c v m stuck by (subst getPreviousNodeImpl.simps) auto
    qed
  qed
qed

text \<open>
  Claim C7, amended.  Take a finite set of nodes on which the search for the next
  candidate (first child, next sibling, or the climb through the parents) and for the
  previous candidate (right-most descendant of the previous sibling, or the parent)
  returns and stays inside the set, and a predicate that returns.  Then
  \<^verbatim>\<open>getNextNodeImpl\<close> and \<^verbatim>\<open>getPreviousNodeImpl\<close> return from every node of the set and
  every visited set, also when the candidates form a cycle: a node already visited gives
  \<open>null\<close> at once, and every recursive call adds the node it came from to the visited
  set.
\<close>

theorem traversal_returns_when_candidates_do:
  assumes "finite N"
    and "\<And>n. n \<in> N \<Longrightarrow>
           \<exists>c. nextCandidate nav l n = Some c \<and> (\<forall>m. c = Some m \<longrightarrow> m \<in> N)"
    and "\<And>n. n \<in> N \<Longrightarrow>
           \<exists>c. previousCandidate nav l n = Some c \<and> (\<forall>m. c = Some m \<longrightarrow> m \<in> N)"
    and "\<And>c. isValid c \<noteq> None"
    and "node \<in> N"
  shows "(\<exists>r. getNextNodeImpl nav l isValid (Some node) visited = Some r) \<and>
         (\<exists>r. getPreviousNodeImpl nav l isValid (Some node) visited = Some r) \<and>
         (node \<in> visited \<longrightarrow>
            getNextNodeImpl nav l isValid (Some node) visited = Some None \<and>
            getPreviousNodeImpl nav l isValid (Some node) visited = Some None)"
proof (intro conjI impI)
  show "\<exists>r. getNextNodeImpl nav l isValid (Some node) visited = Some r"
    using assms(1,2,4,5) by (rule getNextNodeImpl_returns)
  show "\<exists>r. getPreviousNodeImpl nav l isValid (Some node) visited = Some r"
    using assms(1,3,4,5) by (rule getPreviousNodeImpl_returns)
next
  assume "node \<in> visited"
  then show "getNextNodeImpl nav l isValid (Some node) visited = Some None"
    by (subst getNextNodeImpl.simps) simp
next
  assume "node \<in> visited"
  then show "getPreviousNodeImpl nav l isValid (Some node) visited = Some None"
    by (subst getPreviousNodeImpl.simps) simp
qed

theorem traversal_returns_when_candidates_do_witness:
  "finite {WorkspaceSvg, BlockSvg 0, BlockSvg 1, BlockSvg 2, BlockSvg 3} \<and>
   getNextSibling example_navigator True (BlockSvg 2) = Some (BlockSvg 0) \<and>
   getNextNodeImpl example_navigator True (\<lambda>c. Some False) (Some (BlockSvg 0)) {} = Some None \<and>
   getPreviousNodeImpl example_navigator True (\<lambda>c. Some False) (Some (BlockSvg 0)) {} =
     Some None"
proof -
  let ?N = "{WorkspaceSvg, BlockSvg 0, BlockSvg 1, BlockSvg 2, BlockSvg 3}"
  have fin: "finite ?N" by simp
  have nxt: "\<exists>c. nextCandidate example_navigator True n = Some c \<and> (\<forall>m. c = Some m \<longrightarrow> m \<in> ?N)"
    if "n \<in> ?N" for n
    using that by (auto simp: nextCandidate_def example_navigator_def nextOfAncestor.simps)
  have prv: "\<exists>c. previousCandidate example_navigator True n = Some c \<and>
                (\<forall>m. c = Some m \<longrightarrow> m \<in> ?N)"
    if "n \<in> ?N" for n
    using that
    by (auto simp: previousCandidate_def example_navigator_def getRightMostChild.simps
          lastSiblingBefore.simps)
  have valid: "(\<lambda>c. Some False) c \<noteq> None" for c :: "node option" by simp
  have node: "BlockSvg 0 \<in> ?N" by simp
  from traversal_returns_when_candidates_do [OF fin nxt prv valid node, of "{}"] fin
  show ?thesis
    by (simp add: example_navigator_def cursor_defs traversal_simps)
qed

end
